theory Spec2Isabelle
  imports Main "HOL-Library.Extended_Nat" "HOL-Library.Sublist"
begin

section \<open>The Node executor of Intern (src/lib/executors/Node.ts)\<close>

text \<open>
  The theory embeds the parts of \<^verbatim>\<open>Node.ts\<close> that the specification talks about:
  the \<^verbatim>\<open>FunctionQueue\<close> class at the end of the file, the teardown in
  \<^verbatim>\<open>_afterRun\<close>, the entry decision of \<^verbatim>\<open>_beforeRun\<close>, the \<^verbatim>\<open>after\<close> hook of a
  session suite, \<^verbatim>\<open>instrumentCode\<close>, the two process-wide handlers installed by the
  constructor and the \<^verbatim>\<open>coverage\<close> case of \<^verbatim>\<open>_processOption\<close>.

  Asynchronous code is modelled by explicit state passing: a call that the source makes
  is an entry of an effect trace or an update of the state, and the moment at which an
  outstanding operation settles is an input of the model.
\<close>

section \<open>FunctionQueue\<close>

subsection \<open>Tasks\<close>

text \<open>
  \<^verbatim>\<open>Task\<close> comes from the library \<^verbatim>\<open>@dojo/core\<close>. A task object is identified by the
  number it was allocated under; its state is one of the four values of the library's
  \<^verbatim>\<open>State\<close> enumeration. A task settles at most once: \<^verbatim>\<open>resolve\<close> and \<^verbatim>\<open>reject\<close>
  change a pending task only, and the callbacks attached to a task run at most once.
\<close>

datatype State = Pending | Fulfilled | Rejected | Canceled

type_synonym task = nat

text \<open>A job is the function handed to \<^verbatim>\<open>enqueue\<close>; it is identified by a number.\<close>

type_synonym job = nat

text \<open>
  \<^verbatim>\<open>interface QueueEntry { func; resolve; reject }\<close>: \<^verbatim>\<open>resolve\<close> and \<^verbatim>\<open>reject\<close> are
  the two settling functions of one and the same task, the handle returned by
  \<^verbatim>\<open>enqueue\<close>; the entry stores that handle.
\<close>

record QueueEntry =
  func :: job
  handle :: task

text \<open>
  The first four fields are the fields of the class. \<^verbatim>\<open>maxConcurrency\<close> is a count: a
  natural number or \<open>\<infinity>\<close> (the queue is built with
  \<^verbatim>\<open>config.maxConcurrency || Infinity\<close>). The others are the part of the
  outside world the class acts on: the state of every task allocated so far
  (\<open>heap\<close>), the next free task number (\<open>fresh\<close>), for every task built by
  \<^verbatim>\<open>next\<close> the handle that its \<^verbatim>\<open>then(resolve, reject)\<close> settles (\<open>settles\<close>), and
  the jobs whose \<^verbatim>\<open>func()\<close> has been called, in the order of the calls (\<open>started\<close>).
\<close>

record FunctionQueue =
  maxConcurrency :: enat
  queue :: "QueueEntry list"
  activeTasks :: "task list"
  funcTasks :: "task list"
  heap :: "task \<Rightarrow> State option"
  fresh :: task
  settles :: "task \<Rightarrow> task option"
  started :: "job list"

text \<open>\<^verbatim>\<open>constructor(maxConcurrency)\<close>\<close>

definition FunctionQueue_new :: "enat \<Rightarrow> FunctionQueue" where
  "FunctionQueue_new m =
     \<lparr> maxConcurrency = m, queue = [], activeTasks = [], funcTasks = [],
       heap = (\<lambda>_. None), fresh = 0, settles = (\<lambda>_. None), started = [] \<rparr>"

text \<open>Settling a task: only a pending task changes state.\<close>

definition settle :: "task \<Rightarrow> State \<Rightarrow> FunctionQueue \<Rightarrow> FunctionQueue" where
  "settle t st q =
     (if heap q t = Some Pending then q\<lparr> heap := (heap q)(t := Some st) \<rparr> else q)"

text \<open>
  Modelled from the spec: \<^verbatim>\<open>pullFromArray\<close> of \<^verbatim>\<open>lib/common/util\<close> is not among the
  sources; on completion of an active job the task is removed from the active set.
\<close>

definition pullFromArray :: "'a list \<Rightarrow> 'a \<Rightarrow> 'a list" where
  "pullFromArray haystack needle = removeAll needle haystack"

text \<open>
  \<^verbatim>\<open>next()\<close>: when the backlog is not empty, its first entry is shifted off, the job is
  called, and the task built from the job's task by \<^verbatim>\<open>then(resolve, reject)\<close> and
  \<^verbatim>\<open>finally(...)\<close> is pushed on \<^verbatim>\<open>activeTasks\<close>.
\<close>

definition "next" :: "FunctionQueue \<Rightarrow> FunctionQueue" where
  "next q =
     (case queue q of
        [] \<Rightarrow> q
      | e # rest \<Rightarrow>
          let t = fresh q in
          q\<lparr> queue := rest,
             started := started q @ [func e],
             heap := (heap q)(t := Some Pending),
             settles := (settles q)(t := Some (handle e)),
             fresh := Suc t,
             activeTasks := activeTasks q @ [t] \<rparr>)"

text \<open>
  \<^verbatim>\<open>enqueue(func)\<close>: the executor of the new handle runs at once and pushes the entry;
  the handle is pushed on \<^verbatim>\<open>funcTasks\<close>; \<^verbatim>\<open>next()\<close> is called when fewer than
  \<^verbatim>\<open>maxConcurrency\<close> tasks are active. The result is the handle and the new state.
\<close>

definition enqueue :: "job \<Rightarrow> FunctionQueue \<Rightarrow> task \<times> FunctionQueue" where
  "enqueue f q =
     (let funcTask = fresh q;
          q1 = q\<lparr> heap := (heap q)(funcTask := Some Pending),
                  fresh := Suc funcTask,
                  queue := queue q @ [\<lparr> func = f, handle = funcTask \<rparr>],
                  funcTasks := funcTasks q @ [funcTask] \<rparr>
      in (funcTask,
          if enat (length (activeTasks q1)) < maxConcurrency q1 then next q1 else q1))"

text \<open>
  What runs when the job behind the active task \<open>t\<close> settles: first the handler given
  to \<^verbatim>\<open>then\<close>, \<^verbatim>\<open>resolve\<close> when the job succeeded (\<open>ok\<close>) and \<^verbatim>\<open>reject\<close> when it
  failed, then the callback given to \<^verbatim>\<open>finally\<close>, which pulls \<open>t\<close> from
  \<^verbatim>\<open>activeTasks\<close> and calls \<^verbatim>\<open>next()\<close>; with that \<open>t\<close> itself is fulfilled.
\<close>

definition finished :: "task \<Rightarrow> bool \<Rightarrow> FunctionQueue \<Rightarrow> FunctionQueue" where
  "finished t ok q =
     (let q1 = (case settles q t of
                  None \<Rightarrow> q
                | Some h \<Rightarrow> settle h (if ok then Fulfilled else Rejected) q);
          q2 = q1\<lparr> activeTasks := pullFromArray (activeTasks q1) t \<rparr>;
          q3 = next q2
      in settle t Fulfilled q3)"

subsection \<open>Runs of the scheduler\<close>

text \<open>
  What happens to a queue while it schedules: a job is enqueued, or the job behind a
  task settles. The callbacks of a task run only for a task that \<^verbatim>\<open>next\<close> built and that
  is still pending, and only once; \<open>step\<close> ignores a settlement for anything else.
\<close>

datatype event = Enqueue job | Settle task bool

definition live :: "FunctionQueue \<Rightarrow> task \<Rightarrow> bool" where
  "live q t = (heap q t = Some Pending \<and> settles q t \<noteq> None)"

fun step :: "FunctionQueue \<Rightarrow> event \<Rightarrow> FunctionQueue" where
  "step q (Enqueue f) = snd (enqueue f q)"
| "step q (Settle t ok) = (if live q t then finished t ok q else q)"

definition run :: "enat \<Rightarrow> event list \<Rightarrow> FunctionQueue" where
  "run m evs = foldl step (FunctionQueue_new m) evs"

text \<open>The jobs enqueued by a list of events, in order.\<close>

fun enqueued :: "event list \<Rightarrow> job list" where
  "enqueued [] = []"
| "enqueued (Enqueue f # evs) = f # enqueued evs"
| "enqueued (Settle _ _ # evs) = enqueued evs"

subsection \<open>Cancellation\<close>

text \<open>
  \<^verbatim>\<open>array.forEach(callback)\<close> of JavaScript, for an array that is a field of the queue
  and a callback that may change that array: the indices below the length the array had
  at the call are visited in increasing order, and at each of them the callback receives
  the element found there at that moment, if there is one.
\<close>

definition forEach ::
  "(FunctionQueue \<Rightarrow> task list) \<Rightarrow> (task \<Rightarrow> FunctionQueue \<Rightarrow> FunctionQueue)
     \<Rightarrow> FunctionQueue \<Rightarrow> FunctionQueue" where
  "forEach array callback q =
     fold (\<lambda>k q'. if k < length (array q') then callback (array q' ! k) q' else q')
       [0..<length (array q)] q"

text \<open>
  Modelled from the spec: \<^verbatim>\<open>Task.cancel\<close> belongs to the library \<^verbatim>\<open>@dojo/core\<close>, which is
  not among the sources. The specification has what is attached with \<^verbatim>\<open>finally\<close> run
  after success, failure or cancellation (section 4.1, post-run coverage completion and
  teardown), and the executor relies on it in \<^verbatim>\<open>_runTests\<close> and \<^verbatim>\<open>_runRemoteTests\<close>.
  So \<^verbatim>\<open>cancel()\<close> leaves a task that is not pending alone; it moves a pending task to
  \<^verbatim>\<open>Canceled\<close>, the handlers given to \<^verbatim>\<open>then\<close> are not called, and for a task built by
  \<^verbatim>\<open>next()\<close> the callback given to \<^verbatim>\<open>finally\<close> runs at once, inside \<^verbatim>\<open>cancel()\<close>: the
  task is pulled from \<^verbatim>\<open>activeTasks\<close> and \<^verbatim>\<open>next()\<close> is called. A handle built by
  \<^verbatim>\<open>enqueue\<close> has no such callback.
\<close>

definition cancel :: "task \<Rightarrow> FunctionQueue \<Rightarrow> FunctionQueue" where
  "cancel t q =
     (if heap q t = Some Pending
      then
        let q1 = q\<lparr> heap := (heap q)(t := Some Canceled) \<rparr> in
        (case settles q t of
           None \<Rightarrow> q1
         | Some _ \<Rightarrow> next (q1\<lparr> activeTasks := pullFromArray (activeTasks q1) t \<rparr>))
      else q)"

text \<open>\<^verbatim>\<open>clear()\<close>\<close>

definition clear :: "FunctionQueue \<Rightarrow> FunctionQueue" where
  "clear q =
     (let q1 = forEach activeTasks cancel q;
          q2 = forEach funcTasks cancel q1
      in q2\<lparr> activeTasks := [], funcTasks := [], queue := [] \<rparr>)"


text \<open>
  Two notions used by the proofs about runs. \<open>wf\<close> collects what every reachable
  state satisfies: the bound, that the active tasks are exactly the live ones, and that
  task numbers are allocated in order. \<open>order\<close> lists the jobs already started
  followed by the jobs still waiting.
\<close>

definition wf :: "FunctionQueue \<Rightarrow> bool" where
  "wf q \<longleftrightarrow>
     enat (length (activeTasks q)) \<le> maxConcurrency q \<and>
     distinct (activeTasks q) \<and>
     (\<forall>t. live q t \<longleftrightarrow> t \<in> set (activeTasks q)) \<and>
     (\<forall>t. fresh q \<le> t \<longrightarrow> heap q t = None \<and> settles q t = None) \<and>
     (\<forall>t h. settles q t = Some h \<longrightarrow> settles q h = None \<and> h < fresh q) \<and>
     (\<forall>e \<in> set (queue q). settles q (handle e) = None \<and> handle e < fresh q)"

definition order :: "FunctionQueue \<Rightarrow> job list" where
  "order q = started q @ map func (queue q)"

section \<open>Effects, events and outcomes\<close>

text \<open>
  An error is represented by its message. An operation of a collaborator (Server,
  Tunnel, remote session) that the executor waits for settles with an \<open>outcome\<close>.
\<close>

type_synonym error = string

datatype outcome = Resolved | Failed error

text \<open>The events of the \<^verbatim>\<open>Events\<close> interface that the modelled methods emit.\<close>

datatype emitted =
    ServerStart | ServerEnd | TunnelStart | TunnelStop
  | ErrorEvent error | Warning string

text \<open>
  The calls the modelled methods make on their collaborators, in the order in which
  they are made. A session is identified by its \<^verbatim>\<open>sessionId\<close>.
\<close>

type_synonym sessionId = nat

datatype effect =
    UnhookRunInThisContext | UnhookRequire
  | StartServer | StopServer
  | ConstructTunnel | CreateSessionSuites | StartTunnel | StopTunnel
  | AwaitSIGINT
  | Quit sessionId | SendJobState sessionId bool
  | Emit emitted

text \<open>
  \<^verbatim>\<open>p.finally(callback)\<close>: the callback runs however \<open>p\<close> settled; when what the
  callback returns fails, that failure is the result, otherwise the result is that
  of \<open>p\<close>.
\<close>

definition "finally" :: "outcome \<Rightarrow> outcome \<Rightarrow> outcome" where
  "finally p callback = (case callback of Failed e \<Rightarrow> Failed e | Resolved \<Rightarrow> p)"

text \<open>\<open>precedes a b tr\<close>: \<open>a\<close> occurs in the trace and \<open>b\<close> occurs after it.\<close>

definition precedes :: "'a \<Rightarrow> 'a \<Rightarrow> 'a list \<Rightarrow> bool" where
  "precedes a b tr = (b \<in> set (drop 1 (dropWhile (\<lambda>x. x \<noteq> a) tr)))"

section \<open>Configuration\<close>

text \<open>
  The options of \<^verbatim>\<open>Config\<close> that the modelled methods read. \<^verbatim>\<open>leaveRemoteOpen\<close> has
  the type \<^verbatim>\<open>boolean | 'fail'\<close>, \<^verbatim>\<open>coverage\<close> is assigned a value of the type
  \<^verbatim>\<open>boolean | string[]\<close>. \<open>browser_suites\<close> and \<open>node_suites\<close> stand for
  \<^verbatim>\<open>config.browser.suites\<close> and \<^verbatim>\<open>config.node.suites\<close>.
\<close>

datatype leaveRemoteOpen = LeaveBool bool | LeaveFail

datatype coverage = CovBool bool | CovFiles "string list"

record Config =
  environments :: "string list"
  functionalSuites :: "string list"
  suites :: "string list"
  browser_suites :: "string list"
  node_suites :: "string list"
  serveOnly :: bool
  leaveRemoteOpenOpt :: leaveRemoteOpen
  coverageOpt :: coverage

section \<open>Teardown: \<^verbatim>\<open>_afterRun\<close>\<close>

text \<open>
  The fields of the executor that the teardown reads. \<open>server\<close> and \<open>tunnel\<close> are
  \<open>None\<close> when the field is unset; otherwise they carry how the \<^verbatim>\<open>stop()\<close> of that
  object will settle. \<open>unhookRequire\<close> tells whether \<^verbatim>\<open>_unhookRequire\<close> is set.
\<close>

record Node =
  server :: "outcome option"
  tunnel :: "outcome option"
  unhookRequire :: bool

text \<open>\<^verbatim>\<open>_removeInstrumentationHooks()\<close>\<close>

definition removeInstrumentationHooks :: "Node \<Rightarrow> effect list \<times> Node" where
  "removeInstrumentationHooks n =
     (UnhookRunInThisContext # (if unhookRequire n then [UnhookRequire] else []),
      n\<lparr> unhookRequire := False \<rparr>)"

text \<open>
  The promises pushed on \<^verbatim>\<open>promises\<close> are \<^verbatim>\<open>stop().then(() => emit(...))\<close>: when the
  stop succeeds the event is emitted. \<^verbatim>\<open>Promise.all(promises).then(() => {}, error =>
  this.emit('error', error))\<close> calls its error handler once, with the first failure;
  \<open>rejected\<close> tells whether that has happened. The list holds the outstanding stops
  in the order in which they settle.
\<close>

fun settleStops :: "bool \<Rightarrow> (emitted \<times> outcome) list \<Rightarrow> effect list" where
  "settleStops rejected [] = []"
| "settleStops rejected ((ev, Resolved) # ps) = Emit ev # settleStops rejected ps"
| "settleStops rejected ((ev, Failed e) # ps) =
     (if rejected then [] else [Emit (ErrorEvent e)]) @ settleStops True ps"

text \<open>
  \<^verbatim>\<open>_afterRun()\<close>. \<open>superResult\<close> is how \<^verbatim>\<open>super._afterRun()\<close> settled; both stops are
  called before either settles, and \<open>serverFirst\<close> tells which of them settles first.
  The result is the trace of effects and how the returned promise settles. \<^verbatim>\<open>emit\<close>
  is taken to succeed.
\<close>

definition afterRun :: "Node \<Rightarrow> outcome \<Rightarrow> bool \<Rightarrow> effect list \<times> outcome" where
  "afterRun n superResult serverFirst =
     (let (hooks, n1) = removeInstrumentationHooks n;
          ps = (case server n1 of None \<Rightarrow> [] | Some r \<Rightarrow> [(StopServer, ServerEnd, r)]);
          pt = (case tunnel n1 of None \<Rightarrow> [] | Some r \<Rightarrow> [(StopTunnel, TunnelStop, r)]);
          promises = ps @ pt;
          settling = (if serverFirst then promises else rev promises)
      in (hooks @ map fst promises @ settleStops False (map snd settling),
          finally superResult Resolved))"

section \<open>Entry decision: \<^verbatim>\<open>_beforeRun\<close>\<close>

text \<open>
  How the promise returned by \<^verbatim>\<open>_beforeRun\<close> ends: it resolves with a boolean, it
  rejects, or, in serve-only mode, it stays pending until the process receives
  \<^verbatim>\<open>SIGINT\<close> and then resolves with \<^verbatim>\<open>true\<close>.
\<close>

datatype beforeRun_result = Resolves bool | Rejects error | ResolvesOnSIGINT

text \<open>
  The callback run after \<^verbatim>\<open>super._beforeRun()\<close>. The three outcomes are those of
  \<^verbatim>\<open>server.start()\<close>, of \<^verbatim>\<open>_createSessionSuites()\<close> and of \<^verbatim>\<open>tunnel.start()\<close>.
  Copying \<^verbatim>\<open>grep\<close>, \<^verbatim>\<open>timeout\<close> and \<^verbatim>\<open>bail\<close> to the root suite is left out.
\<close>

definition beforeRun ::
  "Config \<Rightarrow> outcome \<Rightarrow> outcome \<Rightarrow> outcome \<Rightarrow> effect list \<times> beforeRun_result" where
  "beforeRun config serverStart sessionSuites tunnelStart =
     (if (length (environments config) > 0 \<and>
          length (functionalSuites config) + length (suites config) +
            length (browser_suites config) > 0) \<or>
         serveOnly config
      then
        (case serverStart of
           Failed e \<Rightarrow> ([StartServer], Rejects e)
         | Resolved \<Rightarrow>
             if serveOnly config
             then ([StartServer, Emit ServerStart, AwaitSIGINT], ResolvesOnSIGINT)
             else
               (case sessionSuites of
                  Failed e \<Rightarrow>
                    ([StartServer, Emit ServerStart, ConstructTunnel, CreateSessionSuites],
                     Rejects e)
                | Resolved \<Rightarrow>
                    (case tunnelStart of
                       Failed e \<Rightarrow>
                         ([StartServer, Emit ServerStart, ConstructTunnel,
                           CreateSessionSuites, StartTunnel], Rejects e)
                     | Resolved \<Rightarrow>
                         ([StartServer, Emit ServerStart, ConstructTunnel,
                           CreateSessionSuites, StartTunnel, Emit TunnelStart],
                          Resolves False))))
      else ([], Resolves False))"

section \<open>Session suites: the \<^verbatim>\<open>after\<close> hook\<close>

text \<open>
  A suite carries its \<^verbatim>\<open>error\<close> (\<open>None\<close> for \<^verbatim>\<open>null\<close> or \<^verbatim>\<open>undefined\<close>), the value of
  its \<^verbatim>\<open>numFailedTests\<close> property and its \<^verbatim>\<open>tests\<close>, each of which is a test or a
  suite. \<^verbatim>\<open>numFailedTests\<close> is a getter of the class \<^verbatim>\<open>Suite\<close>, which is not among the
  sources; its value is a field here.
\<close>

datatype Suite = Suite (error: "error option") (numFailedTests: nat) (tests: "child list")
  and child = ATest string | ASuite Suite

text \<open>
  \<^verbatim>\<open>function hasError(suite)\<close> of \<^verbatim>\<open>endSession\<close>; \<open>someHasError\<close> is
  \<^verbatim>\<open>suite.tests.filter(isSuite).some(hasError)\<close>.
\<close>

fun hasError :: "Suite \<Rightarrow> bool" and someHasError :: "child list \<Rightarrow> bool" where
  "hasError (Suite err failed ts) =
     (if err \<noteq> None \<or> failed > 0 then True else someHasError ts)"
| "someHasError [] = False"
| "someHasError (ATest _ # cs) = someHasError cs"
| "someHasError (ASuite s # cs) = (hasError s \<or> someHasError cs)"

text \<open>
  The \<^verbatim>\<open>after()\<close> hook of a session suite. \<open>remote\<close> is \<open>None\<close> when \<^verbatim>\<open>this.remote\<close> is
  unset and the session identifier of the remote otherwise; \<open>quit\<close> and
  \<open>sendJobState\<close> are how \<^verbatim>\<open>remote.quit()\<close> and \<^verbatim>\<open>tunnel.sendJobState(...)\<close> settle.
  The result is the trace of calls and how the returned promise settles.
\<close>

definition endSession :: "sessionId \<Rightarrow> Suite \<Rightarrow> outcome \<Rightarrow> effect list \<times> outcome" where
  "endSession sid this sendJobState = ([SendJobState sid (\<not> hasError this)], sendJobState)"

definition after ::
  "Config \<Rightarrow> sessionId option \<Rightarrow> Suite \<Rightarrow> outcome \<Rightarrow> outcome \<Rightarrow> effect list \<times> outcome" where
  "after config remote this quit sendJobState =
     (case remote of
        None \<Rightarrow> ([], Resolved)
      | Some sid \<Rightarrow>
          if leaveRemoteOpenOpt config = LeaveBool True \<or>
             (leaveRemoteOpenOpt config = LeaveFail \<and> numFailedTests this > 0)
          then endSession sid this sendJobState
          else (Quit sid # fst (endSession sid this sendJobState),
                finally quit (snd (endSession sid this sendJobState))))"

section \<open>Instrumentation: \<^verbatim>\<open>instrumentCode\<close>\<close>

text \<open>
  The collaborators of \<^verbatim>\<open>instrumentCode\<close>, none of which is among the sources:
  \<^verbatim>\<open>readSourceMap\<close> of \<^verbatim>\<open>lib/node/util\<close>, \<^verbatim>\<open>normalize\<close> of \<^verbatim>\<open>path\<close>, the instrumenter
  and \<^verbatim>\<open>addFileCoverage\<close> of the coverage map. \<open>instrumentSync\<close> returns \<open>Inl\<close> of the
  error message when the instrumenter throws and otherwise the new code together with
  what \<^verbatim>\<open>lastFileCoverage()\<close> and \<^verbatim>\<open>lastSourceMap()\<close> return after it. \<open>'m\<close> is the
  type of source maps, \<open>'c\<close> of file coverage records, \<open>'k\<close> of coverage maps.
\<close>

record ('m, 'c, 'k) collaborators =
  readSourceMap :: "string \<Rightarrow> string \<Rightarrow> 'm option"
  normalize :: "string \<Rightarrow> string"
  instrumentSync :: "string \<Rightarrow> string \<Rightarrow> 'm option \<Rightarrow> error + string \<times> 'c \<times> 'm"
  addFileCoverage :: "'c \<Rightarrow> 'k \<Rightarrow> 'k"

text \<open>
  The fields of the executor that \<^verbatim>\<open>instrumentCode\<close> changes, and the events it has
  emitted. A \<^verbatim>\<open>MapStore\<close> is a map from file names to source maps.
\<close>

record ('m, 'k) instrumentation =
  sourceMaps :: "string \<Rightarrow> 'm option"
  coverageMap :: 'k
  instrumentedMaps :: "string \<Rightarrow> 'm option"
  events :: "emitted list"

text \<open>\<^verbatim>\<open>instrumentCode(code, filename)\<close>; the call of \<^verbatim>\<open>this.log\<close> is left out.\<close>

definition instrumentCode ::
  "('m, 'c, 'k) collaborators \<Rightarrow> string \<Rightarrow> string \<Rightarrow> ('m, 'k) instrumentation
     \<Rightarrow> string \<times> ('m, 'k) instrumentation" where
  "instrumentCode d code filename s =
     (let sourceMap = readSourceMap d filename code;
          s1 = (case sourceMap of
                  None \<Rightarrow> s
                | Some m \<Rightarrow> s\<lparr> sourceMaps := (sourceMaps s)(filename := Some m) \<rparr>)
      in case instrumentSync d code (normalize d filename) sourceMap of
           Inr (newCode, fileCoverage, lastSourceMap) \<Rightarrow>
             (newCode,
              s1\<lparr> coverageMap := addFileCoverage d fileCoverage (coverageMap s1),
                  instrumentedMaps := (instrumentedMaps s1)(filename := Some lastSourceMap) \<rparr>)
         | Inl message \<Rightarrow>
             (code,
              s1\<lparr> events := events s1 @
                    [Warning (''Error instrumenting '' @ filename @ '': '' @ message)] \<rparr>))"

section \<open>Process-wide handlers installed by the constructor\<close>

text \<open>
  Error and promise objects are identified by a reference; \<open>message\<close> is the
  \<^verbatim>\<open>message\<close> property of every error object. \<open>listeners\<close> is \<^verbatim>\<open>this._listeners\<close>
  (\<open>None\<close> where the entry is undefined), \<open>warned\<close> the calls of \<^verbatim>\<open>console.warn\<close>
  with their label and the object printed, \<open>emits\<close> the calls of \<^verbatim>\<open>this.emit\<close> with
  the event name, the object passed and the message that object has at the call.
\<close>

type_synonym ref = nat

record process =
  listeners :: "string \<Rightarrow> nat list option"
  message :: "ref \<Rightarrow> string"
  warned :: "(string \<times> ref) list"
  emits :: "(string \<times> ref \<times> string) list"

definition noListeners :: "process \<Rightarrow> string \<Rightarrow> bool" where
  "noListeners p name =
     (case listeners p name of None \<Rightarrow> True | Some ls \<Rightarrow> length ls = 0)"

definition emit :: "string \<Rightarrow> ref \<Rightarrow> process \<Rightarrow> process" where
  "emit name obj p = p\<lparr> emits := emits p @ [(name, obj, message p obj)] \<rparr>"

text \<open>The handler of \<^verbatim>\<open>'unhandledRejection'\<close>.\<close>

definition unhandledRejection :: "ref \<Rightarrow> ref \<Rightarrow> process \<Rightarrow> process" where
  "unhandledRejection reason promise p =
     (let p1 = (if noListeners p ''error''
                then p\<lparr> warned := warned p @ [(''Unhandled rejection:'', promise)] \<rparr>
                else p);
          p2 = p1\<lparr> message := (message p1)
                  (reason := ''Unhandled rejection: '' @ message p1 reason) \<rparr>
      in emit ''error'' reason p2)"

text \<open>The handler of \<^verbatim>\<open>'uncaughtException'\<close>.\<close>

definition uncaughtException :: "ref \<Rightarrow> process \<Rightarrow> process" where
  "uncaughtException reason p =
     (let p1 = (if noListeners p ''error''
                then p\<lparr> warned := warned p @ [(''Unhandled error:'', reason)] \<rparr>
                else p);
          p2 = p1\<lparr> message := (message p1)
                  (reason := ''Uncaught exception: '' @ message p1 reason) \<rparr>
      in emit ''error'' reason p2)"

section \<open>The \<^verbatim>\<open>coverage\<close> case of \<^verbatim>\<open>_processOption\<close>\<close>



section \<open>Notions used in the statements\<close>

text \<open>An effect that is the emission of an \<^verbatim>\<open>error\<close> event.\<close>

definition isError :: "effect \<Rightarrow> bool" where
  "isError x = (case x of Emit (ErrorEvent _) \<Rightarrow> True | _ \<Rightarrow> False)"

text \<open>
  The entry condition in the words of the specification, over the three lists of suites
  that the source counts: the environments are not empty and at least one suite is
  declared, or serve-only mode is requested.
\<close>

definition engages :: "Config \<Rightarrow> bool" where
  "engages config \<longleftrightarrow>
     (environments config \<noteq> [] \<and>
      (functionalSuites config \<noteq> [] \<or> suites config \<noteq> [] \<or> browser_suites config \<noteq> []))
     \<or> serveOnly config"

text \<open>Sample values on which the theorems are instantiated.\<close>

definition chromeOnly :: Config where
  "chromeOnly = \<lparr> environments = [''chrome''], functionalSuites = [], suites = [],
     browser_suites = [], node_suites = [], serveOnly = False,
     leaveRemoteOpenOpt = LeaveBool False, coverageOpt = CovFiles [] \<rparr>"

definition policy :: "leaveRemoteOpen \<Rightarrow> Config" where
  "policy l = \<lparr> environments = [''chrome''], functionalSuites = [''tests/functional/all.js''],
     suites = [], browser_suites = [], node_suites = [], serveOnly = False,
     leaveRemoteOpenOpt = l, coverageOpt = CovFiles [] \<rparr>"

definition sample :: "(string, string \<times> nat, (string \<times> nat) list) collaborators" where
  "sample = \<lparr> readSourceMap = (\<lambda>filename code. None),
     normalize = (\<lambda>p. p),
     instrumentSync = (\<lambda>code filename m.
        if code = [] then Inl ''empty input''
        else Inr (''cov();'' @ code, (filename, 0), filename @ ''.map'')),
     addFileCoverage = (\<lambda>c k. c # k) \<rparr>"

definition blank :: "(string, (string \<times> nat) list) instrumentation" where
  "blank = \<lparr> sourceMaps = (\<lambda>_. None), coverageMap = [],
     instrumentedMaps = (\<lambda>_. None), events = [] \<rparr>"

definition quiet :: process where
  "quiet = \<lparr> listeners = (\<lambda>_. None), message = (\<lambda>_. ''boom''), warned = [], emits = [] \<rparr>"

text \<open>
  Option values and two parsers over them, for instances of the theorem about the
  \<^verbatim>\<open>coverage\<close> option; the theorem itself holds for any pair of parsers.
\<close>

datatype jsvalue = JBoolean bool | JString string | JStrings "string list" | JNumber int



section \<open>The scheduler: bound, order, cancellation, failure isolation\<close>

subsection \<open>Reachable states are well-formed\<close>

lemma enat_less_one: "enat n < 1 \<longleftrightarrow> n = 0"
  by (simp add: one_enat_def)

lemma enat_less_numeral: "enat n < numeral k \<longleftrightarrow> n < numeral k"
  by (simp add: numeral_eq_enat)

lemmas evaluate = run_def enqueue_def Let_def next_def finished_def settle_def live_def
  pullFromArray_def FunctionQueue_new_def enat_less_one enat_less_numeral

lemma wf_new: "wf (FunctionQueue_new m)"
  by (simp add: wf_def FunctionQueue_new_def live_def enat_0)

lemma next_fields:
  "maxConcurrency (next q) = maxConcurrency q"
  "funcTasks (next q) = funcTasks q"
  by (auto simp: next_def Let_def split: list.splits)

lemma length_next: "length (activeTasks (next q)) \<le> Suc (length (activeTasks q))"
  by (auto simp: next_def Let_def split: list.splits)

lemma wf_next:
  assumes "distinct (activeTasks q)"
    and "\<forall>t. live q t \<longleftrightarrow> t \<in> set (activeTasks q)"
    and "\<forall>t. fresh q \<le> t \<longrightarrow> heap q t = None \<and> settles q t = None"
    and "\<forall>t h. settles q t = Some h \<longrightarrow> settles q h = None \<and> h < fresh q"
    and "\<forall>e \<in> set (queue q). settles q (handle e) = None \<and> handle e < fresh q"
    and "enat (length (activeTasks q)) < maxConcurrency q"
  shows "wf (next q)"
proof (cases "queue q")
  case Nil
  with assms show ?thesis by (simp add: wf_def next_def)
next
  case (Cons e rest)
  let ?t = "fresh q"
  have nt: "?t \<notin> set (activeTasks q)"
  proof
    assume "?t \<in> set (activeTasks q)"
    then have "live q ?t" using assms(2) by blast
    moreover have "heap q ?t = None" using assms(3) by simp
    ultimately show False by (simp add: live_def)
  qed
  have b: "enat (Suc (length (activeTasks q))) \<le> maxConcurrency q"
    using assms(6) by (cases "maxConcurrency q") auto
  have q': "next q = q\<lparr> queue := rest, started := started q @ [func e],
             heap := (heap q)(?t := Some Pending),
             settles := (settles q)(?t := Some (handle e)),
             fresh := Suc ?t, activeTasks := activeTasks q @ [?t] \<rparr>"
    using Cons by (simp add: next_def Let_def)
  have e: "settles q (handle e) = None" "handle e < ?t" "settles q ?t = None" "heap q ?t = None"
    using assms(3,5) Cons by simp_all
  have 1: "enat (length (activeTasks (next q))) \<le> maxConcurrency (next q)"
    using b by (simp add: q')
  have 2: "distinct (activeTasks (next q))"
    using assms(1) nt by (simp add: q')
  have 3: "\<forall>t. live (next q) t \<longleftrightarrow> t \<in> set (activeTasks (next q))"
    using assms(2) by (auto simp: q' live_def)
  have 4: "\<forall>t. fresh (next q) \<le> t \<longrightarrow> heap (next q) t = None \<and> settles (next q) t = None"
    using assms(3) by (simp add: q')
  have 5: "\<forall>t h. settles (next q) t = Some h \<longrightarrow> settles (next q) h = None \<and> h < fresh (next q)"
  proof (intro allI impI)
    fix t h assume a: "settles (next q) t = Some h"
    show "settles (next q) h = None \<and> h < fresh (next q)"
    proof (cases "t = ?t")
      case True
      then have "h = handle e" using a by (simp add: q')
      then show ?thesis using e by (simp add: q')
    next
      case False
      then have "settles q t = Some h" using a by (simp add: q')
      then have "settles q h = None \<and> h < ?t" using assms(4) by blast
      then show ?thesis by (simp add: q')
    qed
  qed
  have 6: "\<forall>e \<in> set (queue (next q)). settles (next q) (handle e) = None \<and> handle e < fresh (next q)"
    using assms(5) Cons by (auto simp: q')
  show ?thesis unfolding wf_def using 1 2 3 4 5 6 by blast
qed

lemma settle_fields:
  "maxConcurrency (settle t st q) = maxConcurrency q"
  "queue (settle t st q) = queue q"
  "activeTasks (settle t st q) = activeTasks q"
  "funcTasks (settle t st q) = funcTasks q"
  "fresh (settle t st q) = fresh q"
  "settles (settle t st q) = settles q"
  "started (settle t st q) = started q"
  by (simp_all add: settle_def)

lemma heap_settle:
  "heap (settle t st q) u = (if u = t \<and> heap q t = Some Pending then Some st else heap q u)"
  by (simp add: settle_def)

lemma wf_enqueue: assumes "wf q" shows "wf (snd (enqueue f q))"
proof -
  let ?h = "fresh q"
  let ?q1 = "q\<lparr> heap := (heap q)(?h := Some Pending), fresh := Suc ?h,
                  queue := queue q @ [\<lparr> func = f, handle = ?h \<rparr>],
                  funcTasks := funcTasks q @ [?h] \<rparr>"
  have s: "settles q ?h = None" "heap q ?h = None" using assms by (simp_all add: wf_def)
  have l: "\<And>t. live ?q1 t \<longleftrightarrow> live q t"
    using s by (auto simp: live_def)
  have a: "distinct (activeTasks ?q1)"
       "\<forall>t. live ?q1 t \<longleftrightarrow> t \<in> set (activeTasks ?q1)"
       "\<forall>t. fresh ?q1 \<le> t \<longrightarrow> heap ?q1 t = None \<and> settles ?q1 t = None"
       "\<forall>t h. settles ?q1 t = Some h \<longrightarrow> settles ?q1 h = None \<and> h < fresh ?q1"
       "\<forall>e \<in> set (queue ?q1). settles ?q1 (handle e) = None \<and> handle e < fresh ?q1"
       "enat (length (activeTasks ?q1)) \<le> maxConcurrency ?q1"
    using assms s unfolding l by (auto simp: wf_def less_Suc_eq)
  show ?thesis
  proof (cases "enat (length (activeTasks ?q1)) < maxConcurrency ?q1")
    case True
    then have "wf (next ?q1)" using a(1-5) by (intro wf_next)
    with True show ?thesis by (simp add: enqueue_def Let_def)
  next
    case False
    have "wf ?q1" unfolding wf_def using a by blast
    with False show ?thesis by (simp add: enqueue_def Let_def)
  qed
qed


lemma settle_next: "t < fresh q \<Longrightarrow> settle t st (next q) = next (settle t st q)"
  by (auto simp: settle_def next_def Let_def fun_upd_twist split: list.splits)

lemma length_removeAll_distinct:
  "distinct xs \<Longrightarrow> x \<in> set xs \<Longrightarrow> Suc (length (removeAll x xs)) = length xs"
  by (induction xs) auto

lemma wf_finished: assumes "wf q" and "live q t" shows "wf (finished t ok q)"
proof -
  from assms obtain h where h: "settles q t = Some h" and tp: "heap q t = Some Pending"
    by (auto simp: live_def)
  have tin: "t \<in> set (activeTasks q)" using assms by (simp add: wf_def)
  have tf: "t < fresh q" using assms(1) tp unfolding wf_def by (metis not_le option.distinct(1))
  have hs: "settles q h = None" "h < fresh q" using assms(1) h unfolding wf_def by blast+
  have ht: "h \<noteq> t" using hs h by auto
  let ?st = "if ok then Fulfilled else Rejected"
  let ?q1 = "settle h ?st q"
  let ?q2 = "?q1\<lparr> activeTasks := pullFromArray (activeTasks ?q1) t \<rparr>"
  let ?q3 = "settle t Fulfilled ?q2"
  have fin: "finished t ok q = next ?q3"
    using h tf by (simp add: finished_def Let_def settle_next settle_fields)
  have act: "activeTasks ?q3 = removeAll t (activeTasks q)"
    by (simp add: settle_fields pullFromArray_def settle_def)
  have heap3: "\<And>u. heap ?q3 u = (if u = t then Some Fulfilled
                   else if u = h \<and> heap q h = Some Pending then Some ?st else heap q u)"
    using tp ht by (auto simp: settle_def)
  have set3: "settles ?q3 = settles q" "fresh ?q3 = fresh q" "queue ?q3 = queue q"
     "maxConcurrency ?q3 = maxConcurrency q"
    by (simp_all add: settle_def)
  have 1: "distinct (activeTasks ?q3)" using assms(1) by (simp add: act wf_def distinct_removeAll)
  have 2: "\<forall>u. live ?q3 u \<longleftrightarrow> u \<in> set (activeTasks ?q3)"
  proof
    fix u
    show "live ?q3 u \<longleftrightarrow> u \<in> set (activeTasks ?q3)"
    proof (cases "u = t")
      case True then show ?thesis by (simp add: live_def heap3 act)
    next
      case False
      have "live ?q3 u \<longleftrightarrow> live q u"
        using False hs(1) unfolding live_def heap3 set3 by auto
      also have "\<dots> \<longleftrightarrow> u \<in> set (activeTasks q)" using assms(1) by (simp add: wf_def)
      finally show ?thesis using False by (simp add: act)
    qed
  qed
  have 3: "\<forall>u. fresh ?q3 \<le> u \<longrightarrow> heap ?q3 u = None \<and> settles ?q3 u = None"
    using assms(1) tf hs(2) unfolding heap3 set3 wf_def by auto
  have 4: "\<forall>u k. settles ?q3 u = Some k \<longrightarrow> settles ?q3 k = None \<and> k < fresh ?q3"
    using assms(1) unfolding set3 wf_def by blast
  have 5: "\<forall>e \<in> set (queue ?q3). settles ?q3 (handle e) = None \<and> handle e < fresh ?q3"
    using assms(1) unfolding set3 wf_def by blast
  have "Suc (length (activeTasks ?q3)) = length (activeTasks q)"
    unfolding act using assms(1) tin by (intro length_removeAll_distinct) (simp_all add: wf_def)
  moreover have "enat (length (activeTasks q)) \<le> maxConcurrency q" using assms(1) by (simp add: wf_def)
  ultimately have 6: "enat (length (activeTasks ?q3)) < maxConcurrency ?q3"
    unfolding set3 by (cases "maxConcurrency q") auto
  show ?thesis unfolding fin using 1 2 3 4 5 6 by (rule wf_next)
qed

lemma wf_step: "wf q \<Longrightarrow> wf (step q e)"
  by (cases e) (simp_all add: wf_enqueue wf_finished)

lemma wf_run: "wf (run m evs)"
  unfolding run_def by (induction evs rule: rev_induct) (simp_all add: wf_new wf_step)


lemma step_maxConcurrency: "maxConcurrency (step q e) = maxConcurrency q"
  by (cases e)
     (simp_all add: enqueue_def Let_def next_fields finished_def settle_fields
        split: option.splits)

lemma run_maxConcurrency: "maxConcurrency (run m evs) = m"
  unfolding run_def
  by (induction evs rule: rev_induct) (simp_all add: FunctionQueue_new_def step_maxConcurrency)

lemma order_next: "order (next q) = order q"
  by (simp add: order_def next_def Let_def split: list.splits)

lemma order_settle: "order (settle t st q) = order q"
  by (simp add: order_def settle_fields)

lemma order_finished: "order (finished t ok q) = order q"
  by (simp add: finished_def Let_def order_settle order_next)
     (simp add: order_def settle_fields split: option.splits)

lemma order_enqueue: "order (snd (enqueue f q)) = order q @ [f]"
  by (simp add: enqueue_def Let_def order_next) (simp add: order_def)

lemma enqueued_append: "enqueued (xs @ ys) = enqueued xs @ enqueued ys"
  by (induction xs rule: enqueued.induct) simp_all

lemma run_snoc: "run m (evs @ [e]) = step (run m evs) e"
  by (simp add: run_def)

lemma order_exact: "order (run m evs) = enqueued evs"
proof (induction evs rule: rev_induct)
  case Nil
  show ?case by (simp add: run_def order_def FunctionQueue_new_def)
next
  case (snoc e evs)
  then show ?case
    by (cases e) (simp_all add: run_snoc order_enqueue order_finished enqueued_append)
qed

lemma finished_idle:
  assumes "queue q = []" and "activeTasks q = []"
  shows "started (finished t ok q) = started q \<and> queue (finished t ok q) = [] \<and>
         activeTasks (finished t ok q) = []"
proof -
  let ?q1 = "case settles q t of None \<Rightarrow> q
             | Some h \<Rightarrow> settle h (if ok then Fulfilled else Rejected) q"
  have f: "queue ?q1 = []" "activeTasks ?q1 = []" "started ?q1 = started q"
    using assms by (simp_all add: settle_fields split: option.splits)
  let ?q2 = "?q1\<lparr> activeTasks := pullFromArray (activeTasks ?q1) t \<rparr>"
  have "queue ?q2 = []" using f by simp
  then have "next ?q2 = ?q2" by (simp add: next_def)
  then have "finished t ok q = settle t Fulfilled ?q2"
    by (simp add: finished_def Let_def)
  then show ?thesis using f by (simp add: settle_fields pullFromArray_def)
qed

text \<open>
  What \<^verbatim>\<open>clear()\<close> does achieve from any state: the three arrays are empty afterwards,
  and the callbacks of a task that settles later start no job.
\<close>

lemma clear_empties:
  "queue (clear q) = [] \<and> activeTasks (clear q) = [] \<and> funcTasks (clear q) = [] \<and>
   started (finished t ok (clear q)) = started (clear q)"
proof -
  have e: "queue (clear q) = []" "activeTasks (clear q) = []" "funcTasks (clear q) = []"
    by (simp_all add: clear_def Let_def)
  show ?thesis using e finished_idle [OF e(1) e(2), of t ok] by simp
qed

subsection \<open>The claims about the scheduler\<close>

text \<open>
  Claim C1. Start from an empty queue with maximum concurrency \<open>m\<close> (a number or
  \<open>\<infinity>\<close>) and let any sequence of events happen: jobs are enqueued and active jobs
  settle, in any order and with any outcome. In the state reached, the number of active
  tasks is at most \<open>m\<close>; since this holds after every sequence of events, it holds at
  every instant. The jobs started so far are a subsequence of the jobs enqueued, in the
  same order; more precisely, the jobs started followed by the jobs still waiting are
  exactly the jobs enqueued, so the \<open>k\<close>-th job to start is the \<open>k\<close>-th job enqueued.
\<close>

theorem FunctionQueue_bound_and_fifo:
  "enat (length (activeTasks (run m evs))) \<le> m \<and>
   subseq (started (run m evs)) (enqueued evs) \<and>
   started (run m evs) @ map func (queue (run m evs)) = enqueued evs \<and>
   (\<forall>k < length (started (run m evs)). started (run m evs) ! k = enqueued evs ! k)"
proof (intro conjI)
  have "wf (run m evs)" by (rule wf_run)
  then show "enat (length (activeTasks (run m evs))) \<le> m"
    by (simp add: wf_def run_maxConcurrency)
next
  show e: "started (run m evs) @ map func (queue (run m evs)) = enqueued evs"
    using order_exact [of m evs] by (simp add: order_def)
  have "subseq (started (run m evs)) (started (run m evs) @ map func (queue (run m evs)))"
    by (simp add: subseq_rev_drop_many)
  then show "subseq (started (run m evs)) (enqueued evs)"
    by (simp add: e)
  show "\<forall>k < length (started (run m evs)). started (run m evs) ! k = enqueued evs ! k"
    by (metis e nth_append)
qed

text \<open>
  An instance: three jobs on a queue of concurrency 1; the first one fails. Job 7 runs
  under task 1, and once it has settled job 8 is started while job 9 waits.
\<close>

theorem FunctionQueue_bound_and_fifo_witness:
  "length (activeTasks (run 1 [Enqueue 7, Enqueue 8, Enqueue 9, Settle 1 False])) = 1 \<and>
   started (run 1 [Enqueue 7, Enqueue 8, Enqueue 9, Settle 1 False]) = [7, 8] \<and>
   map func (queue (run 1 [Enqueue 7, Enqueue 8, Enqueue 9, Settle 1 False])) = [9] \<and>
   enqueued [Enqueue 7, Enqueue 8, Enqueue 9, Settle 1 False] = [7, 8, 9]"
  using FunctionQueue_bound_and_fifo [of 1 "[Enqueue 7, Enqueue 8, Enqueue 9, Settle 1 False]"]
  by (simp add: evaluate)


text \<open>
  Claim C6. Two jobs \<open>j1\<close> and \<open>j2\<close> are enqueued on a queue of concurrency 1; their
  handles are the tasks 0 and 2. Only \<open>j1\<close> is started, under task 1. When \<open>j1\<close>
  fails, handle 0 is rejected, handle 2 is still pending (it is not canceled), and
  \<open>j2\<close> has been started, under task 3. When \<open>j2\<close> then succeeds, handle 2 is fulfilled
  and handle 0 is still rejected.
\<close>

theorem failure_isolation:
  "fst (enqueue j1 (FunctionQueue_new 1)) = 0 \<and>
   fst (enqueue j2 (run 1 [Enqueue j1])) = 2 \<and>
   started (run 1 [Enqueue j1, Enqueue j2]) = [j1] \<and>
   activeTasks (run 1 [Enqueue j1, Enqueue j2]) = [1] \<and>
   settles (run 1 [Enqueue j1, Enqueue j2]) 1 = Some 0 \<and>
   heap (run 1 [Enqueue j1, Enqueue j2, Settle 1 False]) 0 = Some Rejected \<and>
   heap (run 1 [Enqueue j1, Enqueue j2, Settle 1 False]) 2 = Some Pending \<and>
   started (run 1 [Enqueue j1, Enqueue j2, Settle 1 False]) = [j1, j2] \<and>
   activeTasks (run 1 [Enqueue j1, Enqueue j2, Settle 1 False]) = [3] \<and>
   settles (run 1 [Enqueue j1, Enqueue j2, Settle 1 False]) 3 = Some 2 \<and>
   heap (run 1 [Enqueue j1, Enqueue j2, Settle 1 False, Settle 3 True]) 0 = Some Rejected \<and>
   heap (run 1 [Enqueue j1, Enqueue j2, Settle 1 False, Settle 3 True]) 2 = Some Fulfilled \<and>
   activeTasks (run 1 [Enqueue j1, Enqueue j2, Settle 1 False, Settle 3 True]) = []"
  by (simp add: evaluate)

text \<open>An instance with two particular jobs.\<close>

theorem failure_isolation_witness:
  "heap (run 1 [Enqueue 40, Enqueue 41, Settle 1 False]) 0 = Some Rejected \<and>
   started (run 1 [Enqueue 40, Enqueue 41, Settle 1 False]) = [40, 41] \<and>
   heap (run 1 [Enqueue 40, Enqueue 41, Settle 1 False, Settle 3 True]) 2 = Some Fulfilled"
  using failure_isolation [of 40 41] by simp


section \<open>Teardown\<close>

lemma afterRun_cases:
  "afterRun n r b =
    (UnhookRunInThisContext # (if unhookRequire n then [UnhookRequire] else []) @
     (case server n of None \<Rightarrow> [] | Some _ \<Rightarrow> [StopServer]) @
     (case tunnel n of None \<Rightarrow> [] | Some _ \<Rightarrow> [StopTunnel]) @
     settleStops False
       (if b then (case server n of None \<Rightarrow> [] | Some x \<Rightarrow> [(ServerEnd, x)]) @
                  (case tunnel n of None \<Rightarrow> [] | Some y \<Rightarrow> [(TunnelStop, y)])
        else (case tunnel n of None \<Rightarrow> [] | Some y \<Rightarrow> [(TunnelStop, y)]) @
             (case server n of None \<Rightarrow> [] | Some x \<Rightarrow> [(ServerEnd, x)])),
     r)"
  by (simp add: afterRun_def removeInstrumentationHooks_def finally_def Let_def
      split: option.splits)

text \<open>
  Claim C2, as amended. However \<^verbatim>\<open>super._afterRun()\<close> settled (\<open>r\<close>), the teardown
  settles the same way, so it never replaces the failure of the run. It first removes
  the instrumentation hooks, then calls \<^verbatim>\<open>stop()\<close> of the Server if there is one, then
  \<^verbatim>\<open>stop()\<close> of the Tunnel if there is one, and after that only emits events.
  \<^verbatim>\<open>serverEnd\<close> is emitted exactly when the Server's stop succeeds and \<^verbatim>\<open>tunnelStop\<close>
  exactly when the Tunnel's stop succeeds, whatever happened to the other stop. An
  \<^verbatim>\<open>error\<close> event always carries the failure of one of the two stops, and when a stop
  fails exactly one \<^verbatim>\<open>error\<close> event is emitted. It carries the first failure to arrive:
  when only one stop fails, the failure of that stop; when both fail, the failure of the
  Server's stop if that stop settles first (\<open>b\<close>) and the failure of the Tunnel's stop
  otherwise, the other failure being dropped. When no stop fails, no \<^verbatim>\<open>error\<close> event is
  emitted.
\<close>

theorem afterRun_teardown:
  "snd (afterRun n r b) = r \<and>
   (\<exists>rest. fst (afterRun n r b) =
      UnhookRunInThisContext # (if unhookRequire n then [UnhookRequire] else []) @
      (case server n of None \<Rightarrow> [] | Some _ \<Rightarrow> [StopServer]) @
      (case tunnel n of None \<Rightarrow> [] | Some _ \<Rightarrow> [StopTunnel]) @ rest \<and>
      set rest \<subseteq> range Emit) \<and>
   (Emit ServerEnd \<in> set (fst (afterRun n r b)) \<longleftrightarrow> server n = Some Resolved) \<and>
   (Emit TunnelStop \<in> set (fst (afterRun n r b)) \<longleftrightarrow> tunnel n = Some Resolved) \<and>
   (\<forall>e. Emit (ErrorEvent e) \<in> set (fst (afterRun n r b)) \<longrightarrow>
        server n = Some (Failed e) \<or> tunnel n = Some (Failed e)) \<and>
   ((\<exists>e. server n = Some (Failed e)) \<or> (\<exists>e. tunnel n = Some (Failed e)) \<longrightarrow>
      (\<exists>e. filter isError (fst (afterRun n r b)) = [Emit (ErrorEvent e)])) \<and>
   (\<forall>e1 e2. server n = Some (Failed e1) \<and> tunnel n = Some (Failed e2) \<longrightarrow>
      filter isError (fst (afterRun n r b)) = [Emit (ErrorEvent (if b then e1 else e2))]) \<and>
   (\<forall>e1. server n = Some (Failed e1) \<and> (tunnel n = None \<or> tunnel n = Some Resolved) \<longrightarrow>
      filter isError (fst (afterRun n r b)) = [Emit (ErrorEvent e1)]) \<and>
   (\<forall>e2. tunnel n = Some (Failed e2) \<and> (server n = None \<or> server n = Some Resolved) \<longrightarrow>
      filter isError (fst (afterRun n r b)) = [Emit (ErrorEvent e2)]) \<and>
   ((server n = None \<or> server n = Some Resolved) \<and>
    (tunnel n = None \<or> tunnel n = Some Resolved) \<longrightarrow>
      filter isError (fst (afterRun n r b)) = [])"
proof -
  obtain so where so: "server n = so" by simp
  obtain tu where tu: "tunnel n = tu" by simp
  show ?thesis
    unfolding afterRun_cases so tu
    by (cases so; cases tu; cases b; (cases "the so")?; (cases "the tu")?)
       (auto simp: isError_def)
qed

text \<open>
  Two instances. The run failed, the Server's stop fails and the Tunnel's stop succeeds:
  the Tunnel is still stopped and \<^verbatim>\<open>tunnelStop\<close> emitted, and the result is the failure
  of the run. Both stops fail and the Tunnel's settles first: the failure of the
  Tunnel's stop is the one emitted.
\<close>

theorem afterRun_teardown_witness:
  "fst (afterRun \<lparr> server = Some (Failed ''port busy''), tunnel = Some Resolved,
                   unhookRequire = True \<rparr> (Failed ''suite failed'') True) =
     [UnhookRunInThisContext, UnhookRequire, StopServer, StopTunnel,
      Emit (ErrorEvent ''port busy''), Emit TunnelStop] \<and>
   snd (afterRun \<lparr> server = Some (Failed ''port busy''), tunnel = Some Resolved,
                   unhookRequire = True \<rparr> (Failed ''suite failed'') True) =
     Failed ''suite failed'' \<and>
   fst (afterRun \<lparr> server = Some (Failed ''port busy''), tunnel = Some (Failed ''no tunnel''),
                   unhookRequire = False \<rparr> Resolved False) =
     [UnhookRunInThisContext, StopServer, StopTunnel, Emit (ErrorEvent ''no tunnel'')] \<and>
   filter isError
     (fst (afterRun \<lparr> server = Some (Failed ''port busy''), tunnel = Some (Failed ''no tunnel''),
                       unhookRequire = False \<rparr> Resolved False)) =
     [Emit (ErrorEvent ''no tunnel'')]"
  using afterRun_teardown [of "\<lparr> server = Some (Failed ''port busy''),
     tunnel = Some Resolved, unhookRequire = True \<rparr>" "Failed ''suite failed''" True]
    afterRun_teardown [of "\<lparr> server = Some (Failed ''port busy''),
     tunnel = Some (Failed ''no tunnel''), unhookRequire = False \<rparr>" Resolved False]
  by (simp add: afterRun_def removeInstrumentationHooks_def finally_def isError_def)

text \<open>
  Not every failure of a teardown step is emitted: when both stops fail,
  \<^verbatim>\<open>Promise.all\<close> rejects with the failure that comes first and the other one is
  dropped.
\<close>

theorem afterRun_both_fail_counterexample:
  "fst (afterRun \<lparr> server = Some (Failed ''server stop failed''),
                   tunnel = Some (Failed ''tunnel stop failed''),
                   unhookRequire = False \<rparr> Resolved True) =
     [UnhookRunInThisContext, StopServer, StopTunnel,
      Emit (ErrorEvent ''server stop failed'')] \<and>
   Emit (ErrorEvent ''tunnel stop failed'') \<notin>
     set (fst (afterRun \<lparr> server = Some (Failed ''server stop failed''),
                           tunnel = Some (Failed ''tunnel stop failed''),
                           unhookRequire = False \<rparr> Resolved True))"
  by (simp add: afterRun_def removeInstrumentationHooks_def finally_def)

section \<open>Entry decision\<close>

text \<open>
  Claim C7, as amended. The Server is started if and only if the environments are not
  empty and at least one suite is listed in \<^verbatim>\<open>functionalSuites\<close>, \<^verbatim>\<open>suites\<close> or
  \<^verbatim>\<open>browser.suites\<close>, or serve-only mode is requested. Otherwise nothing is started
  and the method resolves with \<^verbatim>\<open>false\<close>. The Tunnel and the session suites are
  reached only under that condition, outside serve-only mode and after the Server has
  started; then they follow the start of the Server in a fixed order.
\<close>

theorem beforeRun_entry:
  "(StartServer \<in> set (fst (beforeRun config s c t)) \<longleftrightarrow> engages config) \<and>
   (\<not> engages config \<longrightarrow> beforeRun config s c t = ([], Resolves False)) \<and>
   (ConstructTunnel \<in> set (fst (beforeRun config s c t)) \<or>
    CreateSessionSuites \<in> set (fst (beforeRun config s c t)) \<or>
    StartTunnel \<in> set (fst (beforeRun config s c t))
      \<longrightarrow> engages config \<and> \<not> serveOnly config \<and> s = Resolved) \<and>
   (engages config \<and> \<not> serveOnly config \<and> s = Resolved \<and> c = Resolved \<longrightarrow>
      take 5 (fst (beforeRun config s c t)) =
        [StartServer, Emit ServerStart, ConstructTunnel, CreateSessionSuites, StartTunnel])"
  by (cases s; cases c; cases t) (auto simp: beforeRun_def engages_def)

text \<open>
  Two instances: one environment with a functional suite, and one environment with no
  suite at all.
\<close>

theorem beforeRun_entry_witness:
  "engages (chromeOnly\<lparr> functionalSuites := [''tests/functional/all.js''] \<rparr>) \<and>
   beforeRun (chromeOnly\<lparr> functionalSuites := [''tests/functional/all.js''] \<rparr>)
      Resolved Resolved Resolved =
     ([StartServer, Emit ServerStart, ConstructTunnel, CreateSessionSuites, StartTunnel,
       Emit TunnelStart], Resolves False) \<and>
   \<not> engages chromeOnly \<and>
   beforeRun chromeOnly Resolved Resolved Resolved = ([], Resolves False)"
  using beforeRun_entry [of "chromeOnly\<lparr> functionalSuites := [''tests/functional/all.js''] \<rparr>"
      Resolved Resolved Resolved]
    beforeRun_entry [of chromeOnly Resolved Resolved Resolved]
  by (simp add: beforeRun_def engages_def chromeOnly_def)

text \<open>
  A suite declared for Node only does not count: with one environment and one suite in
  \<^verbatim>\<open>node.suites\<close> nothing is started.
\<close>

theorem beforeRun_node_suites_counterexample:
  "environments (chromeOnly\<lparr> node_suites := [''tests/unit/all.js''] \<rparr>) \<noteq> [] \<and>
   node_suites (chromeOnly\<lparr> node_suites := [''tests/unit/all.js''] \<rparr>) \<noteq> [] \<and>
   beforeRun (chromeOnly\<lparr> node_suites := [''tests/unit/all.js''] \<rparr>)
      Resolved Resolved Resolved = ([], Resolves False)"
  by (simp add: beforeRun_def chromeOnly_def)


section \<open>Session suite teardown\<close>

text \<open>
  Claim C3, as amended. In the teardown of a session suite with a live remote, the
  verdict \<^verbatim>\<open>success: !hasError(this)\<close> is reported to the Tunnel under the session
  identifier of the remote, however \<^verbatim>\<open>quit()\<close> and the report itself settle. When the
  remote is closed, the trace is the close followed by the report: the verdict is sent
  after \<^verbatim>\<open>quit()\<close> has settled, whether it succeeded or failed. When the remote is
  left open, the report is the only call.
\<close>

theorem after_reports_verdict:
  "SendJobState sid (\<not> hasError this) \<in> set (fst (after config (Some sid) this quit send)) \<and>
   (Quit sid \<in> set (fst (after config (Some sid) this quit send)) \<longrightarrow>
      fst (after config (Some sid) this quit send) =
        [Quit sid, SendJobState sid (\<not> hasError this)]) \<and>
   (Quit sid \<notin> set (fst (after config (Some sid) this quit send)) \<longrightarrow>
      fst (after config (Some sid) this quit send) = [SendJobState sid (\<not> hasError this)])"
  by (simp add: after_def endSession_def)

text \<open>
  Two instances: a passing suite whose \<^verbatim>\<open>quit()\<close> fails, and a suite with a failed
  test under the policy \<^verbatim>\<open>true\<close>.
\<close>

theorem after_reports_verdict_witness:
  "fst (after (policy (LeaveBool False)) (Some 7) (Suite None 0 [ATest ''loads''])
         (Failed ''gone'') Resolved) = [Quit 7, SendJobState 7 True] \<and>
   fst (after (policy (LeaveBool True)) (Some 7) (Suite None 1 [ATest ''loads''])
         Resolved Resolved) = [SendJobState 7 False]"
  using after_reports_verdict [of 7 "Suite None 0 [ATest ''loads'']" "policy (LeaveBool False)"
      "Failed ''gone''" Resolved]
    after_reports_verdict [of 7 "Suite None 1 [ATest ''loads'']" "policy (LeaveBool True)"
      Resolved Resolved]
  by (simp add: after_def endSession_def policy_def)

text \<open>
  The report does not come before the close: for a passing suite under the policy
  \<^verbatim>\<open>false\<close> the remote is closed first and the verdict is sent afterwards.
\<close>

theorem after_report_before_close_counterexample:
  "fst (after (policy (LeaveBool False)) (Some 7) (Suite None 0 []) Resolved Resolved) =
     [Quit 7, SendJobState 7 True] \<and>
   \<not> precedes (SendJobState 7 True) (Quit 7)
       (fst (after (policy (LeaveBool False)) (Some 7) (Suite None 0 []) Resolved Resolved)) \<and>
   precedes (Quit 7) (SendJobState 7 True)
       (fst (after (policy (LeaveBool False)) (Some 7) (Suite None 0 []) Resolved Resolved))"
  by (simp add: after_def endSession_def policy_def precedes_def)

text \<open>
  Claim C4, as amended. With the policy \<^verbatim>\<open>'fail'\<close>, the remote of a session suite is
  left open exactly when the \<^verbatim>\<open>numFailedTests\<close> of the suite is positive, and it is
  closed otherwise; in both cases the verdict is reported to the Tunnel.
\<close>

theorem after_leave_open_on_fail:
  "leaveRemoteOpenOpt config = LeaveFail \<Longrightarrow>
   (Quit sid \<notin> set (fst (after config (Some sid) this quit send))
      \<longleftrightarrow> numFailedTests this > 0) \<and>
   SendJobState sid (\<not> hasError this) \<in> set (fst (after config (Some sid) this quit send))"
  by (simp add: after_def endSession_def)

text \<open>Two instances: a suite with two failed tests and a suite with none.\<close>

theorem after_leave_open_on_fail_witness:
  "leaveRemoteOpenOpt (policy LeaveFail) = LeaveFail \<and>
   fst (after (policy LeaveFail) (Some 7) (Suite None 2 [ATest ''a'', ATest ''b''])
         Resolved Resolved) = [SendJobState 7 False] \<and>
   fst (after (policy LeaveFail) (Some 7) (Suite None 0 [ATest ''a''])
         Resolved Resolved) = [Quit 7, SendJobState 7 True]"
  using after_leave_open_on_fail [of "policy LeaveFail" 7
      "Suite None 2 [ATest ''a'', ATest ''b'']" Resolved Resolved]
    after_leave_open_on_fail [of "policy LeaveFail" 7 "Suite None 0 [ATest ''a'']"
      Resolved Resolved]
  by (simp add: after_def endSession_def policy_def)

text \<open>
  A suite with a suite-level error and no failed test is erroneous, and yet its remote
  is closed under the policy \<^verbatim>\<open>'fail'\<close>.
\<close>

theorem after_suite_error_counterexample:
  "hasError (Suite (Some ''before hook failed'') 0 []) \<and>
   fst (after (policy LeaveFail) (Some 7) (Suite (Some ''before hook failed'') 0 [])
         Resolved Resolved) = [Quit 7, SendJobState 7 False]"
  by (simp add: after_def endSession_def policy_def)

section \<open>Instrumentation\<close>

text \<open>
  Claim C8. When the instrumenter throws an error with message \<open>msg\<close>,
  \<^verbatim>\<open>instrumentCode\<close> returns the code it was given, emits one \<^verbatim>\<open>warning\<close> event whose
  text holds the file name and \<open>msg\<close>, and leaves the coverage map and the store of
  instrumented maps as they were. When the instrumenter succeeds, \<^verbatim>\<open>instrumentCode\<close>
  returns the new code, the file coverage of the instrumenter is added to the coverage
  map, the source map of the instrumenter is registered under the file name, and no
  event is emitted.
\<close>

theorem instrumentCode_result:
  "(instrumentSync d code (normalize d filename) (readSourceMap d filename code) = Inl msg \<longrightarrow>
      fst (instrumentCode d code filename s) = code \<and>
      events (snd (instrumentCode d code filename s)) =
        events s @ [Warning (''Error instrumenting '' @ filename @ '': '' @ msg)] \<and>
      coverageMap (snd (instrumentCode d code filename s)) = coverageMap s \<and>
      instrumentedMaps (snd (instrumentCode d code filename s)) = instrumentedMaps s) \<and>
   (instrumentSync d code (normalize d filename) (readSourceMap d filename code) =
        Inr (newCode, cov, m) \<longrightarrow>
      fst (instrumentCode d code filename s) = newCode \<and>
      coverageMap (snd (instrumentCode d code filename s)) =
        addFileCoverage d cov (coverageMap s) \<and>
      instrumentedMaps (snd (instrumentCode d code filename s)) filename = Some m \<and>
      events (snd (instrumentCode d code filename s)) = events s)"
  by (simp add: instrumentCode_def Let_def split: option.splits)

text \<open>
  Two instances, with an instrumenter that rejects the empty file and otherwise puts a
  counter in front of the code.
\<close>

theorem instrumentCode_result_witness:
  "instrumentSync sample [] (normalize sample ''a.js'') (readSourceMap sample ''a.js'' []) =
     Inl ''empty input'' \<and>
   fst (instrumentCode sample [] ''a.js'' blank) = [] \<and>
   events (snd (instrumentCode sample [] ''a.js'' blank)) =
     [Warning ''Error instrumenting a.js: empty input''] \<and>
   fst (instrumentCode sample ''f();'' ''a.js'' blank) = ''cov();f();'' \<and>
   coverageMap (snd (instrumentCode sample ''f();'' ''a.js'' blank)) = [(''a.js'', 0)] \<and>
   instrumentedMaps (snd (instrumentCode sample ''f();'' ''a.js'' blank)) ''a.js'' =
     Some ''a.js.map''"
  using instrumentCode_result [of sample "[]" "''a.js''" "''empty input''" blank]
    instrumentCode_result [of sample "''f();''" "''a.js''" _ blank "''cov();f();''"
      "(''a.js'', 0)" "''a.js.map''"]
  by (simp add: sample_def blank_def)

section \<open>Uncaught failures\<close>

text \<open>
  Claim C9. Each of the two process-wide handlers writes the prefixed message into the
  error object it was given and then emits that same object as an \<^verbatim>\<open>error\<close> event, so
  that listeners read the prefixed message: \<^verbatim>\<open>Unhandled rejection: \<close> for an unhandled
  rejection, \<^verbatim>\<open>Uncaught exception: \<close> for an uncaught exception. When no \<^verbatim>\<open>error\<close>
  listener is registered the failure is also written to the console, and when one is
  registered the console is not used.
\<close>

theorem uncaught_failures_relabelled:
  "message (unhandledRejection reason promise p) reason =
     ''Unhandled rejection: '' @ message p reason \<and>
   emits (unhandledRejection reason promise p) =
     emits p @ [(''error'', reason, ''Unhandled rejection: '' @ message p reason)] \<and>
   (noListeners p ''error'' \<longrightarrow>
      warned (unhandledRejection reason promise p) =
        warned p @ [(''Unhandled rejection:'', promise)]) \<and>
   (\<not> noListeners p ''error'' \<longrightarrow> warned (unhandledRejection reason promise p) = warned p) \<and>
   message (uncaughtException reason p) reason =
     ''Uncaught exception: '' @ message p reason \<and>
   emits (uncaughtException reason p) =
     emits p @ [(''error'', reason, ''Uncaught exception: '' @ message p reason)] \<and>
   (noListeners p ''error'' \<longrightarrow>
      warned (uncaughtException reason p) = warned p @ [(''Unhandled error:'', reason)]) \<and>
   (\<not> noListeners p ''error'' \<longrightarrow> warned (uncaughtException reason p) = warned p)"
  by (simp add: unhandledRejection_def uncaughtException_def emit_def Let_def)

text \<open>Two instances: an executor without listeners, and one with a listener.\<close>

theorem uncaught_failures_relabelled_witness:
  "noListeners quiet ''error'' \<and>
   message (unhandledRejection 1 2 quiet) 1 = ''Unhandled rejection: boom'' \<and>
   emits (unhandledRejection 1 2 quiet) = [(''error'', 1, ''Unhandled rejection: boom'')] \<and>
   warned (unhandledRejection 1 2 quiet) = [(''Unhandled rejection:'', 2)] \<and>
   \<not> noListeners (quiet\<lparr> listeners := (\<lambda>_. Some [0]) \<rparr>) ''error'' \<and>
   warned (uncaughtException 1 (quiet\<lparr> listeners := (\<lambda>_. Some [0]) \<rparr>)) = [] \<and>
   emits (uncaughtException 1 (quiet\<lparr> listeners := (\<lambda>_. Some [0]) \<rparr>)) =
     [(''error'', 1, ''Uncaught exception: boom'')]"
  using uncaught_failures_relabelled [of 1 2 quiet]
    uncaught_failures_relabelled [of 1 2 "quiet\<lparr> listeners := (\<lambda>_. Some [0]) \<rparr>"]
  by (simp add: quiet_def noListeners_def)

section \<open>The coverage option\<close>



end
